theory Spec2Isabelle
  imports Complex_Main
begin

section \<open>JavaScript values\<close>

text \<open>
  The values that \<open>JSON.parse\<close> produces, and \<open>undefined\<close>, which reading an absent
  property gives. A number is carried by its exact value: every finite double is a
  rational, \<open>-0\<close> and \<open>0\<close> are the same key of a \<open>Map\<close> or \<open>Set\<close>, and JSON has no
  \<open>NaN\<close>. \<open>JInfinity\<close> is what an overflowing literal such as \<open>1e999\<close> parses to
  (\<open>True\<close> for the positive one). An object is the list of its own properties, each
  name once, as the parser leaves them.
\<close>

datatype jsval =
    JUndefined
  | JNull
  | JBool bool
  | JNum rat
  | JInfinity bool
  | JStr string
  | JArr "jsval list"
  | JObj "(string \<times> jsval) list"

text \<open>
  What is thrown: by \<open>JSON.parse\<close>, by the language (reading a property of \<open>null\<close>,
  converting a value that has no string), and by a \<open>send\<close> that fails at once.
\<close>

datatype exn = SyntaxError | TypeError | SendError

text \<open>The operand test of \<open>||\<close>: \<open>undefined\<close>, \<open>null\<close>, \<open>false\<close>, \<open>0\<close> and \<open>""\<close> are falsy.\<close>

fun truthy :: "jsval \<Rightarrow> bool" where
  "truthy JUndefined = False"
| "truthy JNull = False"
| "truthy (JBool b) = b"
| "truthy (JNum q) = (q \<noteq> 0)"
| "truthy (JInfinity b) = True"
| "truthy (JStr s) = (s \<noteq> [])"
| "truthy (JArr xs) = True"
| "truthy (JObj kvs) = True"

text \<open>
  Arrays and objects are compared by reference in \<open>===\<close>, in a \<open>Set\<close> and in a \<open>Map\<close>;
  every other value is compared by what it is.
\<close>

fun is_reference :: "jsval \<Rightarrow> bool" where
  "is_reference (JArr xs) = True"
| "is_reference (JObj kvs) = True"
| "is_reference v = False"

text \<open>
  \<open>message.name\<close> for the property names the server reads (\<open>type\<close>, \<open>channel\<close>, \<open>data\<close>,
  \<open>targetId\<close>, \<open>message\<close>), none of which a built-in prototype defines: an own property
  of an object, \<open>undefined\<close> on anything else, and a \<open>TypeError\<close> on \<open>null\<close> and
  \<open>undefined\<close>.
\<close>

fun field :: "jsval \<Rightarrow> string \<Rightarrow> jsval" where
  "field (JObj kvs) name = (case map_of kvs name of None \<Rightarrow> JUndefined | Some v \<Rightarrow> v)"
| "field v name = JUndefined"

definition get_prop :: "jsval \<Rightarrow> string \<Rightarrow> exn + jsval" where
  "get_prop v name =
     (if v = JUndefined \<or> v = JNull then Inl TypeError else Inr (field v name))"

text \<open>
  Whether the conversion of a value to a string returns, in a template literal
  \<open>`${v}`\<close> and for the elements that \<open>Array.prototype.join\<close> puts together. An
  object is asked for its \<open>toString\<close> and then its \<open>valueOf\<close>: with a \<open>toString\<close>
  property of its own, which in a decoded value is never a function, neither gives a
  string (\<open>Object.prototype.valueOf\<close> gives back the object) and a \<open>TypeError\<close> is
  thrown; without one, \<open>Object.prototype.toString\<close> answers. An array is joined, so
  it converts when its elements do. Every other value has a string.
\<close>

fun converts :: "jsval \<Rightarrow> bool" where
  "converts (JArr xs) = list_all converts xs"
| "converts (JObj kvs) = (map_of kvs ''toString'' = None)"
| "converts v = True"

section \<open>The \<open>Set\<close> of channels\<close>

text \<open>
  A \<open>Set\<close> keeps its members in insertion order. The values looked up, added and deleted
  here come out of a message that was just decoded, so an array or an object among them
  is a new reference: it is found in no set, adding it always appends, deleting it
  removes nothing.
\<close>

definition set_has :: "jsval list \<Rightarrow> jsval \<Rightarrow> bool" where
  "set_has xs v = (\<not> is_reference v \<and> v \<in> set xs)"

definition set_add :: "jsval list \<Rightarrow> jsval \<Rightarrow> jsval list" where
  "set_add xs v = (if set_has xs v then xs else xs @ [v])"

definition set_delete :: "jsval list \<Rightarrow> jsval \<Rightarrow> jsval list" where
  "set_delete xs v = (if is_reference v then xs else removeAll v xs)"

section \<open>The \<open>Map\<close> of connections\<close>

text \<open>
  A \<open>Map\<close> iterates in insertion order; \<open>set\<close> on a key that is present replaces the value
  where it stands, on a new key it appends.
\<close>

fun map_set :: "nat \<Rightarrow> 'v \<Rightarrow> (nat \<times> 'v) list \<Rightarrow> (nat \<times> 'v) list" where
  "map_set k v [] = [(k, v)]"
| "map_set k v (p # m) = (if fst p = k then (k, v) # m else p # map_set k v m)"

definition map_get :: "(nat \<times> 'v) list \<Rightarrow> nat \<Rightarrow> 'v option" where
  "map_get m k = map_of m k"

definition map_delete :: "nat \<Rightarrow> (nat \<times> 'v) list \<Rightarrow> (nat \<times> 'v) list" where
  "map_delete k m = filter (\<lambda>p. fst p \<noteq> k) m"

text \<open>
  \<open>connections.get(message.targetId)\<close>: the keys are numbers, so only a number finds
  one, the key it is numerically equal to.
\<close>

definition map_get_val :: "(nat \<times> 'v) list \<Rightarrow> jsval \<Rightarrow> 'v option" where
  "map_get_val m v =
     (case v of
        JNum q \<Rightarrow> map_of (map (\<lambda>p. (of_nat (fst p) :: rat, snd p)) m) q
      | _ \<Rightarrow> None)"

section \<open>Sockets, connection records and the module state\<close>

text \<open>
  A \<open>ws\<close> object is a handle; the transport owns its \<open>readyState\<close>, which the server
  only reads, so a handler takes the ready states as a function of the handle.
  \<open>ws.send(JSON.stringify(e))\<close> is recorded as the pair of the handle and the event \<open>e\<close>,
  in the order of the calls; a call of \<open>send\<close> is taken to return normally, except
  in the loop of \<open>broadcastToChannel\<close>, which is given the sockets on which it throws.
  \<open>console.log\<close> and \<open>console.error\<close> print nothing that a client sees and are taken
  to return normally once their arguments are evaluated; evaluating a template literal
  among the arguments can throw.
\<close>

type_synonym sock = nat

datatype ready_state = CONNECTING | OPEN | CLOSING | CLOSED

record connection_info =
  id_conn :: nat
  ws :: sock
  ip :: jsval
  channels :: "jsval list"
  connectedAt :: nat

record server_state =
  connections :: "(nat \<times> connection_info) list"
  connectionIdCounter :: nat

text \<open>The events the server sends, each with the fields of its object literal, in order.\<close>

datatype event =
    Connection nat string nat
  | Subscribed jsval nat
  | Unsubscribed jsval nat
  | ChannelMessage jsval nat jsval nat
  | DirectMessage nat jsval nat
  | Pong nat
  | Echo jsval nat
  | Error string nat
  | Broadcast jsval jsval nat
  | Heartbeat nat

type_synonym wire = "(sock \<times> event) list"

definition initial_state :: server_state where
  "initial_state = \<lparr>connections = [], connectionIdCounter = 0\<rparr>"

text \<open>
  \<open>++connectionIdCounter\<close> on a double that starts at 0: exact up to \<open>2 ^ 53\<close>, where
  adding one rounds back to \<open>2 ^ 53\<close>. The counter never exceeds that value.
\<close>

definition incr :: "nat \<Rightarrow> nat" where
  "incr n = (if n < 2 ^ 53 then n + 1 else n)"

section \<open>The connection handler\<close>

text \<open>
  \<open>wss.on('connection')\<close> up to the welcome message. \<open>Date.now()\<close> is read twice, for
  \<open>connectedAt\<close> and for the timestamp of the welcome. The result is the \<open>connectionId\<close>
  the listeners of this socket close over, the new state and the sends.
\<close>

definition on_connection ::
  "sock \<Rightarrow> jsval \<Rightarrow> nat \<Rightarrow> nat \<Rightarrow> server_state \<Rightarrow> nat \<times> server_state \<times> wire" where
  "on_connection sk clientIp t0 t1 s =
     (let connectionId = incr (connectionIdCounter s);
          connectionInfo = \<lparr>id_conn = connectionId, ws = sk, ip = clientIp,
                            channels = [JStr ''default''], connectedAt = t0\<rparr>
      in (connectionId,
          \<lparr>connections = map_set connectionId connectionInfo (connections s),
           connectionIdCounter = connectionId\<rparr>,
          [(sk, Connection connectionId
                  ''Connected to WebSocket server with multiplexing support'' t1)]))"

section \<open>Channel fan-out\<close>

text \<open>
  The \<open>forEach\<close> of \<open>broadcastToChannel\<close>, with the counter \<open>sent\<close> and the sends so
  far as the loop state; \<open>excludeId\<close> is \<open>null\<close> (\<open>None\<close>) or a number. For every
  record, before it sends anything to it, the callback writes a debug line whose
  template joins the channels of the record: that throws when one of them has no
  string, and the exception leaves the loop. \<open>raises sk\<close> tells whether \<open>send\<close> on the
  socket \<open>sk\<close> throws; nothing in the loop catches that either. The result is the
  exception or the counter, and the sends made.
\<close>

fun broadcast_loop ::
  "(sock \<Rightarrow> bool) \<Rightarrow> (sock \<Rightarrow> ready_state) \<Rightarrow> jsval \<Rightarrow> event \<Rightarrow> nat option \<Rightarrow>
   (nat \<times> connection_info) list \<Rightarrow> nat \<times> wire \<Rightarrow> (exn + nat) \<times> wire" where
  "broadcast_loop raises rs channel message excludeId [] acc = (Inr (fst acc), snd acc)"
| "broadcast_loop raises rs channel message excludeId (p # rest) acc =
     (let conn = snd p;
          isSubscribed = set_has (channels conn) channel;
          isNotExcluded = (Some (id_conn conn) \<noteq> excludeId);
          isOpen = (rs (ws conn) = OPEN)
      in if \<not> list_all converts (channels conn) then (Inl TypeError, snd acc)
         else if isNotExcluded \<and> isSubscribed \<and> isOpen
         then (if raises (ws conn) then (Inl SendError, snd acc)
               else broadcast_loop raises rs channel message excludeId rest
                      (fst acc + 1, snd acc @ [(ws conn, message)]))
         else broadcast_loop raises rs channel message excludeId rest acc)"

text \<open>
  After the loop, and before \<open>return sent\<close>, a second line is written whose template
  converts \<open>channel\<close>.
\<close>

definition broadcastToChannel_with ::
  "(sock \<Rightarrow> bool) \<Rightarrow> (sock \<Rightarrow> ready_state) \<Rightarrow> jsval \<Rightarrow> event \<Rightarrow> nat option \<Rightarrow>
   server_state \<Rightarrow> (exn + nat) \<times> wire" where
  "broadcastToChannel_with raises rs channel message excludeId s =
     (case broadcast_loop raises rs channel message excludeId (connections s) (0, []) of
        (Inl e, out) \<Rightarrow> (Inl e, out)
      | (Inr sent, out) \<Rightarrow> if converts channel then (Inr sent, out) else (Inl TypeError, out))"

text \<open>\<open>broadcastToChannel\<close> on a transport whose \<open>send\<close> always returns.\<close>

definition broadcastToChannel ::
  "(sock \<Rightarrow> ready_state) \<Rightarrow> jsval \<Rightarrow> event \<Rightarrow> nat option \<Rightarrow> server_state \<Rightarrow>
   (exn + nat) \<times> wire" where
  "broadcastToChannel rs channel message excludeId s =
     broadcastToChannel_with (\<lambda>sk. False) rs channel message excludeId s"

section \<open>The message handler\<close>

text \<open>\<open>message.channel || 'default'\<close>.\<close>

definition channel_of :: "jsval \<Rightarrow> jsval" where
  "channel_of message =
     (if truthy (field message ''channel'') then field message ''channel''
      else JStr ''default'')"

text \<open>
  The body of the \<open>switch\<close>, for a decoded message whose \<open>type\<close> has been read. The
  closure holds the socket \<open>sk\<close> and its \<open>connectionId\<close>; each branch reads the clock once.
  The result is the state, the sends, and the exception that ended the branch, if one
  did: the \<open>subscribe\<close> and \<open>unsubscribe\<close> branches, after they have changed the set
  and sent the acknowledgement, write a line whose template converts
  \<open>message.channel\<close>, and the \<open>message\<close> branch throws what \<open>broadcastToChannel\<close> throws.
\<close>

definition dispatch ::
  "(sock \<Rightarrow> ready_state) \<Rightarrow> sock \<Rightarrow> nat \<Rightarrow> jsval \<Rightarrow> jsval \<Rightarrow> nat \<Rightarrow> server_state \<Rightarrow>
   server_state \<times> wire \<times> exn option" where
  "dispatch rs sk connectionId message ty now s =
     (if ty = JStr ''subscribe'' then
        (case map_get (connections s) connectionId of
           Some conn \<Rightarrow>
             (s\<lparr>connections := map_set connectionId
                   (conn\<lparr>channels := set_add (channels conn) (field message ''channel'')\<rparr>)
                   (connections s)\<rparr>,
              [(sk, Subscribed (field message ''channel'') now)],
              if converts (field message ''channel'') then None else Some TypeError)
         | None \<Rightarrow> (s, [], None))
      else if ty = JStr ''unsubscribe'' then
        (case map_get (connections s) connectionId of
           Some connUnsub \<Rightarrow>
             (s\<lparr>connections := map_set connectionId
                   (connUnsub\<lparr>channels :=
                      set_delete (channels connUnsub) (field message ''channel'')\<rparr>)
                   (connections s)\<rparr>,
              [(sk, Unsubscribed (field message ''channel'') now)],
              if converts (field message ''channel'') then None else Some TypeError)
         | None \<Rightarrow> (s, [], None))
      else if ty = JStr ''message'' then
        (let channel = channel_of message;
             r = broadcastToChannel rs channel
                   (ChannelMessage channel connectionId (field message ''data'') now) None s
         in (s, snd r, case fst r of Inl e \<Rightarrow> Some e | Inr sent \<Rightarrow> None))
      else if ty = JStr ''direct'' then
        (case map_get_val (connections s) (field message ''targetId'') of
           Some targetConn \<Rightarrow>
             (if rs (ws targetConn) = OPEN
              then (s, [(ws targetConn,
                         DirectMessage connectionId (field message ''data'') now)], None)
              else (s, [], None))
         | None \<Rightarrow> (s, [], None))
      else if ty = JStr ''ping'' then (s, [(sk, Pong now)], None)
      else (s, [(sk, Echo message now)], None))"

text \<open>
  \<open>ws.on('message')\<close>. \<open>decoded\<close> is the outcome of \<open>JSON.parse(data)\<close>, a value or the
  exception it threw, and reading \<open>message.type\<close> throws on \<open>null\<close>: both happen before
  the state is touched or the clock read, and the \<open>catch\<close> block answers with the
  \<open>error\<close> event at \<open>now\<close>. An exception out of a branch comes after the branch has
  read the clock and done its work; the \<open>catch\<close> block then adds the \<open>error\<close> event
  with a second reading of the clock, \<open>later\<close>.
\<close>

definition on_message ::
  "(sock \<Rightarrow> ready_state) \<Rightarrow> sock \<Rightarrow> nat \<Rightarrow> exn + jsval \<Rightarrow> nat \<Rightarrow> nat \<Rightarrow> server_state \<Rightarrow>
   server_state \<times> wire" where
  "on_message rs sk connectionId decoded now later s =
     (case decoded of
        Inl e \<Rightarrow> (s, [(sk, Error ''Invalid message format'' now)])
      | Inr message \<Rightarrow>
          (case get_prop message ''type'' of
             Inl e \<Rightarrow> (s, [(sk, Error ''Invalid message format'' now)])
           | Inr ty \<Rightarrow>
               (case dispatch rs sk connectionId message ty now s of
                  (s', out, None) \<Rightarrow> (s', out)
                | (s', out, Some e) \<Rightarrow>
                    (s', out @ [(sk, Error ''Invalid message format'' later)]))))"

text \<open>
  The listener is an arrow function with a block body and no \<open>return\<close>: whatever the
  frame, its call has the value \<open>undefined\<close>.
\<close>

definition on_message_returns ::
  "(sock \<Rightarrow> ready_state) \<Rightarrow> sock \<Rightarrow> nat \<Rightarrow> exn + jsval \<Rightarrow> nat \<Rightarrow> nat \<Rightarrow> server_state \<Rightarrow>
   jsval" where
  "on_message_returns rs sk connectionId decoded now later s = JUndefined"

section \<open>Close and error\<close>

definition on_close :: "nat \<Rightarrow> server_state \<Rightarrow> server_state" where
  "on_close connectionId s = s\<lparr>connections := map_delete connectionId (connections s)\<rparr>"

text \<open>\<open>ws.on('error')\<close> writes to the console and nothing else.\<close>

definition on_error :: "nat \<Rightarrow> server_state \<Rightarrow> server_state" where
  "on_error connectionId s = s"

section \<open>The broadcast endpoint and the heartbeat\<close>

text \<open>
  Both loops read \<open>Date.now()\<close> inside the callback, once for each send: \<open>clock i\<close> is
  the value of the read number \<open>i\<close>, counted from 0.
\<close>

fun api_loop ::
  "(sock \<Rightarrow> ready_state) \<Rightarrow> jsval \<Rightarrow> jsval \<Rightarrow> (nat \<Rightarrow> nat) \<Rightarrow>
   (nat \<times> connection_info) list \<Rightarrow> nat \<times> wire \<Rightarrow> nat \<times> wire" where
  "api_loop rs channel message clock [] acc = acc"
| "api_loop rs channel message clock (p # rest) acc =
     (if rs (ws (snd p)) = OPEN
      then api_loop rs channel message clock rest
             (fst acc + 1,
              snd acc @ [(ws (snd p), Broadcast channel message (clock (fst acc)))])
      else api_loop rs channel message clock rest acc)"

datatype http_response = BroadcastResult bool nat

text \<open>
  \<open>app.post('/api/broadcast')\<close>: destructuring \<open>req.body\<close> throws on \<open>null\<close> and
  \<open>undefined\<close>, and the default of \<open>channel\<close> applies when the property is \<open>undefined\<close>.
\<close>

definition api_broadcast ::
  "(sock \<Rightarrow> ready_state) \<Rightarrow> jsval \<Rightarrow> (nat \<Rightarrow> nat) \<Rightarrow> server_state \<Rightarrow>
   exn + (http_response \<times> wire)" where
  "api_broadcast rs body clock s =
     (if body = JUndefined \<or> body = JNull then Inl TypeError
      else
        (let message = field body ''message'';
             channel = (if field body ''channel'' = JUndefined then JStr ''default''
                        else field body ''channel'');
             r = api_loop rs channel message clock (connections s) (0, [])
         in Inr (BroadcastResult True (fst r), snd r)))"

fun heartbeat_loop ::
  "(sock \<Rightarrow> ready_state) \<Rightarrow> (nat \<Rightarrow> nat) \<Rightarrow> (nat \<times> connection_info) list \<Rightarrow>
   nat \<times> wire \<Rightarrow> nat \<times> wire" where
  "heartbeat_loop rs clock [] acc = acc"
| "heartbeat_loop rs clock (p # rest) acc =
     (if rs (ws (snd p)) = OPEN
      then heartbeat_loop rs clock rest
             (fst acc + 1, snd acc @ [(ws (snd p), Heartbeat (clock (fst acc)))])
      else heartbeat_loop rs clock rest acc)"

definition heartbeat :: "(sock \<Rightarrow> ready_state) \<Rightarrow> (nat \<Rightarrow> nat) \<Rightarrow> server_state \<Rightarrow> wire" where
  "heartbeat rs clock s = snd (heartbeat_loop rs clock (connections s) (0, []))"

section \<open>Runs of the server\<close>

text \<open>
  The handlers run one at a time, each to completion. An input is one call of a
  listener: a new connection with its socket, address and the two clock readings; a
  frame on a socket, with the ready states at that moment, the closure's socket and
  \<open>connectionId\<close>, the outcome of \<open>JSON.parse\<close> and the two clock readings; a \<open>close\<close> event; an
  \<open>error\<close> event. \<open>run\<close> returns the identities given to the connections, in order,
  and the last state.
\<close>

datatype input =
    Connect sock jsval nat nat
  | Receive "sock \<Rightarrow> ready_state" sock nat "exn + jsval" nat nat
  | Close nat
  | Fail nat

fun run :: "input list \<Rightarrow> server_state \<Rightarrow> nat list \<times> server_state" where
  "run [] s = ([], s)"
| "run (Connect sk clientIp t0 t1 # evs) s =
     (case on_connection sk clientIp t0 t1 s of
        (connectionId, s', out) \<Rightarrow>
          (case run evs s' of (ids, s'') \<Rightarrow> (connectionId # ids, s'')))"
| "run (Receive rs sk connectionId decoded now later # evs) s =
     run evs (fst (on_message rs sk connectionId decoded now later s))"
| "run (Close connectionId # evs) s = run evs (on_close connectionId s)"
| "run (Fail connectionId # evs) s = run evs (on_error connectionId s)"

fun is_Connect :: "input \<Rightarrow> bool" where
  "is_Connect (Connect sk clientIp t0 t1) = True"
| "is_Connect ev = False"

fun connect_sockets :: "input list \<Rightarrow> sock list" where
  "connect_sockets [] = []"
| "connect_sockets (Connect sk clientIp t0 t1 # evs) = sk # connect_sockets evs"
| "connect_sockets (ev # evs) = connect_sockets evs"

text \<open>
  \<open>n\<close> connections, one after the other, each on a socket of its own and each closed
  before the next one arrives: connection number \<open>i\<close>, counted from 0, is given the
  identity \<open>incr i\<close>.
\<close>

fun churn :: "nat \<Rightarrow> input list" where
  "churn 0 = []"
| "churn (Suc n) = churn n @ [Connect n (JStr ''::1'') n n, Close (incr n)]"

section \<open>Recipients, well-formed states, failing writes\<close>

text \<open>
  A recipient of a channel delivery, in the words of the specification: live, not the
  excluded identity, and subscribed to the channel.
\<close>

definition recipient ::
  "(sock \<Rightarrow> ready_state) \<Rightarrow> jsval \<Rightarrow> nat option \<Rightarrow> connection_info \<Rightarrow> bool" where
  "recipient rs channel excludeId conn =
     (rs (ws conn) = OPEN \<and> Some (id_conn conn) \<noteq> excludeId
      \<and> set_has (channels conn) channel)"

definition is_open :: "(sock \<Rightarrow> ready_state) \<Rightarrow> connection_info \<Rightarrow> bool" where
  "is_open rs conn = (rs (ws conn) = OPEN)"

definition sockets_of :: "(nat \<times> connection_info) list \<Rightarrow> sock list" where
  "sockets_of m = map (\<lambda>p. ws (snd p)) m"

text \<open>
  The states the server can be in: the keys of the map are distinct, every record
  sits under its own identity, no identity is above the counter, the counter is at most
  \<open>2 ^ 53\<close>, and no two records share a socket.
\<close>

definition wf_state :: "server_state \<Rightarrow> bool" where
  "wf_state s =
     (distinct (map fst (connections s))
      \<and> distinct (sockets_of (connections s))
      \<and> list_all (\<lambda>p. id_conn (snd p) = fst p \<and> fst p \<le> connectionIdCounter s)
           (connections s)
      \<and> connectionIdCounter s \<le> 2 ^ 53)"

text \<open>
  \<open>send\<close> on an open socket hands the data to the transport and returns; the server
  passes no callback, so a write that fails afterwards is never reported to the code
  that sent it. \<open>written ok out\<close> are the sends that reach the peer when \<open>ok sk\<close>
  tells whether the writes on \<open>sk\<close> succeed.
\<close>

definition written :: "(sock \<Rightarrow> bool) \<Rightarrow> wire \<Rightarrow> wire" where
  "written ok out = filter (\<lambda>e. ok (fst e)) out"

section \<open>States, frames and transports of the examples\<close>

text \<open>
  A state with four connections: 1, 2 and 4 are subscribed to \<open>gaming\<close>, connection 3 is not; the socket
  of connection 2 is closed, the others are open.
\<close>

definition four :: server_state where
  "four =
     \<lparr>connections =
        [(1, \<lparr>id_conn = 1, ws = 10, ip = JStr ''::1'',
              channels = [JStr ''default'', JStr ''gaming''], connectedAt = 100\<rparr>),
         (2, \<lparr>id_conn = 2, ws = 20, ip = JStr ''::1'',
              channels = [JStr ''default'', JStr ''gaming''], connectedAt = 110\<rparr>),
         (3, \<lparr>id_conn = 3, ws = 30, ip = JStr ''::1'',
              channels = [JStr ''default''], connectedAt = 120\<rparr>),
         (4, \<lparr>id_conn = 4, ws = 40, ip = JStr ''::1'',
              channels = [JStr ''gaming''], connectedAt = 130\<rparr>)],
      connectionIdCounter = 4\<rparr>"

definition four_ready :: "sock \<Rightarrow> ready_state" where
  "four_ready sk = (if sk = 20 then CLOSED else OPEN)"

text \<open>The first and the last record of that state.\<close>

definition player_one :: connection_info where
  "player_one = \<lparr>id_conn = 1, ws = 10, ip = JStr ''::1'',
              channels = [JStr ''default'', JStr ''gaming''], connectedAt = 100\<rparr>"

definition player_four :: connection_info where
  "player_four = \<lparr>id_conn = 4, ws = 40, ip = JStr ''::1'',
              channels = [JStr ''gaming''], connectedAt = 130\<rparr>"

text \<open>
  Decoded frames: a direct message to connection 4, a subscription, and a type the
  server does not know.
\<close>

definition direct_to_four :: jsval where
  "direct_to_four =
     JObj [(''type'', JStr ''direct''), (''targetId'', JNum 4), (''data'', JStr ''psst'')]"

definition join_chess :: jsval where
  "join_chess = JObj [(''type'', JStr ''subscribe''), (''channel'', JStr ''chess'')]"

definition shout :: jsval where
  "shout = JObj [(''type'', JStr ''shout''), (''data'', JStr ''hey'')]"

text \<open>The body of a broadcast request, and a clock that reads 50, 51, ...\<close>

definition maintenance :: jsval where
  "maintenance = JObj [(''channel'', JStr ''alerts''), (''message'', JStr ''maintenance'')]"

definition ticking :: "nat \<Rightarrow> nat" where
  "ticking i = 50 + i"

text \<open>A transport on which the writes to socket 40 fail.\<close>

definition lossy :: "sock \<Rightarrow> bool" where
  "lossy sk = (sk \<noteq> 40)"

text \<open>
  A channel that has no string, the frames that subscribe to it and unsubscribe from
  it, and a message to \<open>default\<close>.
\<close>

definition poison :: jsval where
  "poison = JObj [(''toString'', JNum 1)]"

definition subscribe_poison :: jsval where
  "subscribe_poison = JObj [(''type'', JStr ''subscribe''), (''channel'', poison)]"

definition unsubscribe_poison :: jsval where
  "unsubscribe_poison = JObj [(''type'', JStr ''unsubscribe''), (''channel'', poison)]"

definition hi_default :: jsval where
  "hi_default =
     JObj [(''type'', JStr ''message''), (''channel'', JStr ''default''),
           (''data'', JStr ''hi'')]"

text \<open>
  Three connections on open sockets, the second of which then subscribes to that
  channel, and the state this run ends in.
\<close>

definition all_open :: "sock \<Rightarrow> ready_state" where
  "all_open sk = OPEN"

definition poison_run :: "input list" where
  "poison_run =
     [Connect 10 (JStr ''::1'') 100 101,
      Connect 20 (JStr ''::1'') 110 111,
      Connect 30 (JStr ''::1'') 120 121,
      Receive all_open 20 2 (Inr subscribe_poison) 130 131]"

definition poisoned :: server_state where
  "poisoned =
     \<lparr>connections =
        [(1, \<lparr>id_conn = 1, ws = 10, ip = JStr ''::1'',
              channels = [JStr ''default''], connectedAt = 100\<rparr>),
         (2, \<lparr>id_conn = 2, ws = 20, ip = JStr ''::1'',
              channels = [JStr ''default'', poison], connectedAt = 110\<rparr>),
         (3, \<lparr>id_conn = 3, ws = 30, ip = JStr ''::1'',
              channels = [JStr ''default''], connectedAt = 120\<rparr>)],
      connectionIdCounter = 3\<rparr>"

text \<open>One connection, and the state of the server after it.\<close>

definition one_connect :: "input list" where
  "one_connect = [Connect 10 (JStr ''::1'') 100 101]"

definition alone :: server_state where
  "alone =
     \<lparr>connections =
        [(1, \<lparr>id_conn = 1, ws = 10, ip = JStr ''::1'',
              channels = [JStr ''default''], connectedAt = 100\<rparr>)],
      connectionIdCounter = 1\<rparr>"

text \<open>
  Transports on which \<open>send\<close> throws: on socket 30 alone, which in the state with four
  connections gets no message to \<open>gaming\<close>, and on socket 10 alone, which gets the first.
\<close>

definition throws_on_30 :: "sock \<Rightarrow> bool" where
  "throws_on_30 sk = (sk = 30)"

definition throws_on_10 :: "sock \<Rightarrow> bool" where
  "throws_on_10 sk = (sk = 10)"

text \<open>A run with three connections, a subscription and a close between them.\<close>

definition three_connects :: "input list" where
  "three_connects =
     [Connect 10 (JStr ''::1'') 100 101,
      Receive (\<lambda>sk. OPEN) 10 1
        (Inr (JObj [(''type'', JStr ''subscribe''), (''channel'', JStr ''gaming'')])) 105 106,
      Connect 20 (JStr ''::1'') 110 111,
      Close 1,
      Connect 30 (JStr ''::1'') 120 121]"

section \<open>The map operations\<close>

lemma map_get_map_set_same: "map_get (map_set k v m) k = Some v"
  by (induction m) (auto simp: map_get_def)

lemma map_set_keys:
  "map fst (map_set k v m) = (if k \<in> fst ` set m then map fst m else map fst m @ [k])"
  by (induction m) auto

lemma map_set_set: "set (map_set k v m) \<subseteq> insert (k, v) (set m)"
  by (induction m) auto

lemma sockets_map_set: "set (sockets_of (map_set k v m)) \<subseteq> insert (ws v) (set (sockets_of m))"
  by (induction m) (auto simp: sockets_of_def)

lemma map_set_sockets_fresh:
  "distinct (sockets_of m) \<Longrightarrow> ws v \<notin> set (sockets_of m) \<Longrightarrow>
   distinct (sockets_of (map_set k v m))"
proof (induction m)
  case Nil
  then show ?case by (simp add: sockets_of_def)
next
  case (Cons p m)
  have c: "sockets_of (p # m) = ws (snd p) # sockets_of m" for m
    by (simp add: sockets_of_def)
  show ?case
  proof (cases "fst p = k")
    case True
    then show ?thesis using Cons.prems by (simp add: sockets_of_def)
  next
    case False
    have "ws (snd p) \<noteq> ws v" using Cons.prems(2) by (auto simp: c)
    moreover have "ws (snd p) \<notin> set (sockets_of m)" using Cons.prems(1) by (simp add: c)
    ultimately have "ws (snd p) \<notin> set (sockets_of (map_set k v m))"
      using sockets_map_set [of k v m] by auto
    then show ?thesis using False Cons by (simp add: c)
  qed
qed

lemma map_set_same_socket:
  "map_get m k = Some c \<Longrightarrow> ws v = ws c \<Longrightarrow> sockets_of (map_set k v m) = sockets_of m"
  by (induction m) (auto simp: map_get_def sockets_of_def)

lemma map_get_map_set_other: "k' \<noteq> k \<Longrightarrow> map_get (map_set k v m) k' = map_get m k'"
  by (induction m) (auto simp: map_get_def)

lemma map_set_present_keys: "map_get m k = Some c \<Longrightarrow> map fst (map_set k v m) = map fst m"
  by (induction m) (auto simp: map_get_def)

lemma map_set_unchanged: "map_get m k = Some v \<Longrightarrow> map_set k v m = m"
  by (induction m) (auto simp: map_get_def)

lemma wf_initial: "wf_state initial_state"
  by (simp add: wf_state_def initial_state_def sockets_of_def)

lemma incr_bounds: "n \<le> 2 ^ 53 \<Longrightarrow> n \<le> incr n \<and> incr n \<le> 2 ^ 53"
  by (simp add: incr_def)

lemma wf_on_connection:
  assumes "wf_state s" and "sk \<notin> set (sockets_of (connections s))"
  shows "wf_state (fst (snd (on_connection sk clientIp t0 t1 s)))"
proof -
  let ?k = "incr (connectionIdCounter s)"
  let ?v = "\<lparr>id_conn = ?k, ws = sk, ip = clientIp, channels = [JStr ''default''], connectedAt = t0\<rparr>"
  let ?m = "map_set ?k ?v (connections s)"
  have s': "fst (snd (on_connection sk clientIp t0 t1 s)) = \<lparr>connections = ?m, connectionIdCounter = ?k\<rparr>"
    by (simp add: on_connection_def Let_def)
  have b: "connectionIdCounter s \<le> ?k" "?k \<le> 2 ^ 53"
    using assms(1) incr_bounds by (simp_all add: wf_state_def)
  have 1: "distinct (map fst ?m)"
    using assms(1) by (auto simp: map_set_keys wf_state_def)
  have 2: "distinct (sockets_of ?m)"
    using assms by (intro map_set_sockets_fresh) (simp_all add: wf_state_def)
  have 3: "list_all (\<lambda>p. id_conn (snd p) = fst p \<and> fst p \<le> ?k) ?m"
    unfolding list_all_iff
  proof
    fix p assume "p \<in> set ?m"
    then have "p = (?k, ?v) \<or> p \<in> set (connections s)" using map_set_set [of ?k ?v "connections s"] by auto
    then show "id_conn (snd p) = fst p \<and> fst p \<le> ?k"
      using assms(1) b(1) by (auto simp: wf_state_def list_all_iff)
  qed
  show ?thesis unfolding s' using 1 2 3 b(2) by (simp add: wf_state_def)
qed

lemma wf_dispatch: "wf_state s \<Longrightarrow> wf_state (fst (dispatch rs sk cid m ty now s))"
proof -
  assume w: "wf_state s"
  have upd: "wf_state (s\<lparr>connections := map_set cid (c\<lparr>channels := chs\<rparr>) (connections s)\<rparr>)"
    if g: "map_get (connections s) cid = Some c" for c chs
  proof -
    let ?m = "map_set cid (c\<lparr>channels := chs\<rparr>) (connections s)"
    have k: "map fst ?m = map fst (connections s)" using g by (rule map_set_present_keys)
    have so: "sockets_of ?m = sockets_of (connections s)"
      using g by (rule map_set_same_socket) simp
    have mem: "(cid, c) \<in> set (connections s)" using g by (auto simp: map_get_def dest: map_of_SomeD)
    have "list_all (\<lambda>p. id_conn (snd p) = fst p \<and> fst p \<le> connectionIdCounter s) ?m"
      unfolding list_all_iff
    proof
      fix p assume "p \<in> set ?m"
      then have "p = (cid, c\<lparr>channels := chs\<rparr>) \<or> p \<in> set (connections s)"
        using map_set_set [of cid _ "connections s"] by auto
      then show "id_conn (snd p) = fst p \<and> fst p \<le> connectionIdCounter s"
        using w mem by (auto simp: wf_state_def list_all_iff)
    qed
    then show ?thesis using w k so by (simp add: wf_state_def)
  qed
  show ?thesis
    using w upd by (simp add: dispatch_def Let_def split: option.splits)
qed

lemma on_message_cases:
  "fst (on_message rs sk cid d now later s) = s
   \<or> (\<exists>m ty. fst (on_message rs sk cid d now later s) = fst (dispatch rs sk cid m ty now s))"
proof (cases d)
  case (Inl e)
  then show ?thesis by (simp add: on_message_def)
next
  case (Inr m)
  show ?thesis
  proof (cases "get_prop m ''type''")
    case (Inl e)
    then show ?thesis using Inr by (simp add: on_message_def)
  next
    case r: (Inr ty)
    have "fst (on_message rs sk cid d now later s) = fst (dispatch rs sk cid m ty now s)"
      using Inr r by (simp add: on_message_def split: prod.splits option.splits)
    then show ?thesis by blast
  qed
qed

lemma wf_on_message: "wf_state s \<Longrightarrow> wf_state (fst (on_message rs sk cid d now later s))"
  using on_message_cases [of rs sk cid d now later s] by (elim disjE exE) (simp_all add: wf_dispatch)

lemma wf_on_close: "wf_state s \<Longrightarrow> wf_state (on_close cid s)"
  by (simp add: wf_state_def on_close_def map_delete_def sockets_of_def distinct_map_filter
      list_all_iff)

lemma sockets_dispatch:
  "set (sockets_of (connections (fst (dispatch rs sk cid m ty now s))))
     \<subseteq> set (sockets_of (connections s))"
proof -
  have "sockets_of (map_set cid (c\<lparr>channels := chs\<rparr>) (connections s)) = sockets_of (connections s)"
    if "map_get (connections s) cid = Some c" for c chs
    using that by (rule map_set_same_socket) simp
  then show ?thesis
    by (simp add: dispatch_def Let_def split: option.splits)
qed

lemma sockets_on_message:
  "set (sockets_of (connections (fst (on_message rs sk cid d now later s))))
     \<subseteq> set (sockets_of (connections s))"
  using on_message_cases [of rs sk cid d now later s] by (elim disjE exE) (simp_all add: sockets_dispatch)

lemma sockets_on_close:
  "set (sockets_of (connections (on_close cid s))) \<subseteq> set (sockets_of (connections s))"
  by (auto simp: on_close_def map_delete_def sockets_of_def)

lemma sockets_on_connection:
  "set (sockets_of (connections (fst (snd (on_connection sk clientIp t0 t1 s)))))
     \<subseteq> insert sk (set (sockets_of (connections s)))"
  using sockets_map_set [of "incr (connectionIdCounter s)"
      "\<lparr>id_conn = incr (connectionIdCounter s), ws = sk, ip = clientIp,
         channels = [JStr ''default''], connectedAt = t0\<rparr>" "connections s"]
  by (simp add: on_connection_def Let_def)

lemma wf_run:
  "wf_state s \<Longrightarrow> distinct (connect_sockets evs) \<Longrightarrow>
   set (connect_sockets evs) \<inter> set (sockets_of (connections s)) = {} \<Longrightarrow>
   wf_state (snd (run evs s))"
proof (induction evs s rule: run.induct)
  case (1 s)
  then show ?case by simp
next
  case (2 sk clientIp t0 t1 evs s)
  let ?s' = "fst (snd (on_connection sk clientIp t0 t1 s))"
  have r: "snd (run (Connect sk clientIp t0 t1 # evs) s) = snd (run evs ?s')"
    by (simp split: prod.splits)
  have w: "wf_state ?s'" using "2.prems" by (intro wf_on_connection) auto
  have "set (connect_sockets evs) \<inter> set (sockets_of (connections ?s')) = {}"
    using "2.prems"(2,3) sockets_on_connection [of sk clientIp t0 t1 s] by auto
  then have "wf_state (snd (run evs ?s'))"
    using "2.IH" [of "fst (on_connection sk clientIp t0 t1 s)" "snd (on_connection sk clientIp t0 t1 s)" ?s' "snd (snd (on_connection sk clientIp t0 t1 s))"] w "2.prems"(2)
    by simp
  then show ?case unfolding r .
next
  case (3 rs sk connectionId decoded now later evs s)
  let ?s' = "fst (on_message rs sk connectionId decoded now later s)"
  have "set (connect_sockets evs) \<inter> set (sockets_of (connections ?s')) = {}"
    using "3.prems"(3) sockets_on_message [of rs sk connectionId decoded now later s] by auto
  moreover have "wf_state ?s'" using "3.prems"(1) by (rule wf_on_message)
  ultimately have "wf_state (snd (run evs ?s'))" using "3.IH" "3.prems"(2) by simp
  then show ?case by simp
next
  case (4 connectionId evs s)
  let ?s' = "on_close connectionId s"
  have "set (connect_sockets evs) \<inter> set (sockets_of (connections ?s')) = {}"
    using "4.prems"(3) sockets_on_close [of connectionId s] by auto
  moreover have "wf_state ?s'" using "4.prems"(1) by (rule wf_on_close)
  ultimately have "wf_state (snd (run evs ?s'))" using "4.IH" "4.prems"(2) by simp
  then show ?case by simp
next
  case (5 connectionId evs s)
  then show ?case by (simp add: on_error_def)
qed

text \<open>
  Every state the server reaches from its start is well formed, when each connection
  arrives on a socket of its own.
\<close>

lemma wf_reachable:
  "distinct (connect_sockets evs) \<Longrightarrow> wf_state (snd (run evs initial_state))"
proof (rule wf_run)
  show "wf_state initial_state" by (rule wf_initial)
  show "set (connect_sockets evs) \<inter> set (sockets_of (connections initial_state)) = {}"
    by (simp add: initial_state_def sockets_of_def)
qed

lemma wf_four: "wf_state four"
  by (simp add: wf_state_def four_def sockets_of_def)

section \<open>Registration\<close>

text \<open>
  C3. Accepting a connection stores, under the identity it assigns, a record whose
  channels are exactly \<open>default\<close>, and sends one event, the welcome of type
  \<open>connection\<close> carrying that identity, on the new socket and on no other.
\<close>

theorem on_connection_registers:
  "(case on_connection sk clientIp t0 t1 s of
      (connectionId, s', out) \<Rightarrow>
        connectionId = incr (connectionIdCounter s)
        \<and> map_get (connections s') connectionId =
            Some \<lparr>id_conn = connectionId, ws = sk, ip = clientIp,
                   channels = [JStr ''default''], connectedAt = t0\<rparr>
        \<and> out = [(sk, Connection connectionId
                         ''Connected to WebSocket server with multiplexing support'' t1)])"
  by (simp add: on_connection_def Let_def map_get_map_set_same)

section \<open>Channel delivery\<close>

lemma broadcast_loop_eq:
  "list_all (\<lambda>p. list_all converts (channels (snd p))) m \<Longrightarrow>
   \<forall>p \<in> set m. recipient rs channel excludeId (snd p) \<longrightarrow> \<not> raises (ws (snd p)) \<Longrightarrow>
   broadcast_loop raises rs channel message excludeId m acc =
     (Inr (fst acc + length (filter (recipient rs channel excludeId) (map snd m))),
      snd acc @ map (\<lambda>c. (ws c, message)) (filter (recipient rs channel excludeId) (map snd m)))"
  by (induction m arbitrary: acc) (auto simp: recipient_def Let_def)

lemma broadcast_loop_sockets:
  "fst ` set (snd (broadcast_loop raises rs channel message excludeId m acc))
     \<subseteq> fst ` set (snd acc) \<union> set (sockets_of m)"
proof (induction m arbitrary: acc)
  case Nil
  then show ?case by simp
next
  case (Cons p m)
  have c: "set (sockets_of (p # m)) = insert (ws (snd p)) (set (sockets_of m))"
    by (simp add: sockets_of_def)
  show ?case
    using Cons [of acc] Cons [of "(fst acc + 1, snd acc @ [(ws (snd p), message)])"]
    unfolding c by (auto simp: Let_def)
qed

lemma broadcastToChannel_with_eq:
  "list_all (\<lambda>p. list_all converts (channels (snd p))) (connections s) \<Longrightarrow>
   converts channel \<Longrightarrow>
   \<forall>p \<in> set (connections s).
     recipient rs channel excludeId (snd p) \<longrightarrow> \<not> raises (ws (snd p)) \<Longrightarrow>
   broadcastToChannel_with raises rs channel message excludeId s =
     (Inr (length (filter (recipient rs channel excludeId) (map snd (connections s)))),
      map (\<lambda>c. (ws c, message))
        (filter (recipient rs channel excludeId) (map snd (connections s))))"
  by (simp add: broadcastToChannel_with_def broadcast_loop_eq)

lemma broadcastToChannel_sockets:
  "fst ` set (snd (broadcastToChannel rs channel payload excludeId s))
     \<subseteq> set (sockets_of (connections s))"
proof -
  have "snd (broadcastToChannel rs channel payload excludeId s)
          = snd (broadcast_loop (\<lambda>sk. False) rs channel payload excludeId (connections s) (0, []))"
    by (simp add: broadcastToChannel_def broadcastToChannel_with_def split: prod.splits sum.splits)
  then show ?thesis
    using broadcast_loop_sockets [of "\<lambda>sk. False" rs channel payload excludeId "connections s" "(0, [])"]
    by simp
qed

lemma filter_same_socket:
  "distinct (map ws cs) \<Longrightarrow> c \<in> set cs \<Longrightarrow> filter (\<lambda>x. ws x = ws c) cs = [c]"
proof (induction cs)
  case Nil
  then show ?case by simp
next
  case (Cons a cs)
  have fresh: "\<forall>x\<in>set cs. ws x \<noteq> ws a"
    using Cons.prems(1) by (simp add: image_iff) metis
  show ?case
  proof (cases "c = a")
    case True
    then show ?thesis using fresh by (simp add: filter_empty_conv)
  next
    case False
    then have "c \<in> set cs" using Cons.prems by simp
    then show ?thesis using Cons fresh by auto
  qed
qed

lemma sends_on_socket:
  assumes "distinct (map ws cs)" and "c \<in> set cs"
  shows "filter (\<lambda>e. fst e = ws c) (map (\<lambda>c. (ws c, f c)) (filter P cs))
     = (if P c then [(ws c, f c)] else [])"
proof -
  have "filter (\<lambda>e. fst e = ws c) (map (\<lambda>c. (ws c, f c)) (filter P cs))
        = map (\<lambda>c. (ws c, f c)) (filter P (filter (\<lambda>x. ws x = ws c) cs))"
    by (simp add: filter_map comp_def conj_commute)
  then show ?thesis
    using filter_same_socket [OF assms] by simp
qed

text \<open>
  A frame of type \<open>message\<close> leaves the state as it is and sends what
  \<open>broadcastToChannel\<close> sends, with no identity excluded; when that throws, the
  \<open>error\<close> event to the sender follows.
\<close>

lemma on_message_channel_message:
  "field message ''type'' = JStr ''message'' \<Longrightarrow>
   on_message rs sk connectionId (Inr message) now later s =
     (s, snd (broadcastToChannel rs (channel_of message)
                (ChannelMessage (channel_of message) connectionId (field message ''data'') now)
                None s)
         @ (case fst (broadcastToChannel rs (channel_of message)
                (ChannelMessage (channel_of message) connectionId (field message ''data'') now)
                None s) of
              Inl e \<Rightarrow> [(sk, Error ''Invalid message format'' later)]
            | Inr sent \<Rightarrow> []))"
  by (auto simp: on_message_def get_prop_def dispatch_def Let_def split: sum.splits)

lemma poisoned_reached: "snd (run poison_run initial_state) = poisoned"
  by (simp add: poison_run_def initial_state_def on_connection_def incr_def Let_def
      on_message_def get_prop_def dispatch_def subscribe_poison_def poison_def map_get_def
      set_add_def set_has_def poisoned_def)

text \<open>
  C1. The delivery to a channel is to reach every live subscriber once, the sender
  with them, and to return their number. In the state that three connections and a
  subscription of the second to a channel without a string lead to, it does not: all
  three records are live and subscribed to \<open>default\<close>, and for a message to \<open>default\<close>
  from the third the debug line of the loop throws at the second record, so that
  \<open>broadcastToChannel\<close> returns no count and has sent to the first socket only, and the
  handler adds the \<open>error\<close> event to the sender, which never gets its own message.
\<close>

theorem poisoned_fan_out:
  "snd (run poison_run initial_state) = poisoned
   \<and> length (filter (recipient all_open (JStr ''default'') None)
               (map snd (connections poisoned))) = 3
   \<and> broadcastToChannel all_open (JStr ''default'')
        (ChannelMessage (JStr ''default'') 3 (JStr ''hi'') 7) None poisoned
       = (Inl TypeError, [(10, ChannelMessage (JStr ''default'') 3 (JStr ''hi'') 7)])
   \<and> on_message all_open 30 3 (Inr hi_default) 7 8 poisoned
       = (poisoned, [(10, ChannelMessage (JStr ''default'') 3 (JStr ''hi'') 7),
                     (30, Error ''Invalid message format'' 8)])"
proof -
  have b: "broadcastToChannel all_open (JStr ''default'') payload None poisoned
       = (Inl TypeError, [(10, payload)])" for payload
    by (simp add: broadcastToChannel_def broadcastToChannel_with_def poisoned_def all_open_def
        set_has_def poison_def)
  have r: "length (filter (recipient all_open (JStr ''default'') None)
               (map snd (connections poisoned))) = 3"
    by (simp add: poisoned_def recipient_def all_open_def set_has_def)
  have m: "field hi_default ''type'' = JStr ''message''"
    "channel_of hi_default = JStr ''default''" "field hi_default ''data'' = JStr ''hi''"
    by (simp_all add: hi_default_def channel_of_def)
  have "on_message all_open 30 3 (Inr hi_default) 7 8 poisoned
       = (poisoned, [(10, ChannelMessage (JStr ''default'') 3 (JStr ''hi'') 7),
                     (30, Error ''Invalid message format'' 8)])"
    by (simp add: on_message_channel_message [OF m(1)] m b)
  then show ?thesis using poisoned_reached r b by simp
qed

section \<open>Identities\<close>

lemma counter_dispatch:
  "connectionIdCounter (fst (dispatch rs sk cid m ty now s)) = connectionIdCounter s"
  by (simp add: dispatch_def Let_def split: option.splits)

lemma counter_on_message:
  "connectionIdCounter (fst (on_message rs sk cid d now later s)) = connectionIdCounter s"
  using on_message_cases [of rs sk cid d now later s]
  by (elim disjE exE) (simp_all add: counter_dispatch)

lemma counter_on_close: "connectionIdCounter (on_close cid s) = connectionIdCounter s"
  by (simp add: on_close_def)

lemma run_ids_nth:
  "connectionIdCounter s \<le> 2 ^ 53 \<Longrightarrow> i < length (fst (run evs s)) \<Longrightarrow>
   fst (run evs s) ! i = min (connectionIdCounter s + i + 1) (2 ^ 53)"
proof (induction evs s arbitrary: i rule: run.induct)
  case (1 s)
  then show ?case by simp
next
  case (2 sk clientIp t0 t1 evs s)
  let ?s' = "fst (snd (on_connection sk clientIp t0 t1 s))"
  have c: "connectionIdCounter ?s' = incr (connectionIdCounter s)"
    by (simp add: on_connection_def Let_def)
  have c': "connectionIdCounter ?s' \<le> 2 ^ 53"
    using "2.prems"(1) by (simp add: c incr_def)
  have r: "fst (run (Connect sk clientIp t0 t1 # evs) s)
             = incr (connectionIdCounter s) # fst (run evs ?s')"
    by (simp add: on_connection_def Let_def split: prod.splits)
  show ?case
  proof (cases i)
    case 0
    show ?thesis unfolding r 0 using "2.prems"(1) by (simp add: incr_def min_def)
  next
    case (Suc j)
    then have "j < length (fst (run evs ?s'))" using "2.prems" r by simp
    then have "fst (run evs ?s') ! j = min (connectionIdCounter ?s' + j + 1) (2 ^ 53)"
      using "2.IH" [of "fst (on_connection sk clientIp t0 t1 s)"
          "snd (on_connection sk clientIp t0 t1 s)" ?s'
          "snd (snd (on_connection sk clientIp t0 t1 s))" j] c'
      by simp
    then show ?thesis unfolding r Suc using "2.prems"(1) by (simp add: c incr_def min_def)
  qed
next
  case (3 rs sk connectionId decoded now later evs s)
  then show ?case by (simp add: counter_on_message)
next
  case (4 connectionId evs s)
  then show ?case by (simp add: counter_on_close)
next
  case (5 connectionId evs s)
  then show ?case by (simp add: on_error_def)
qed

lemma run_ids_length: "length (fst (run evs s)) = length (filter is_Connect evs)"
  by (induction evs s rule: run.induct) (auto split: prod.splits)

lemma connects_of_churn: "length (filter is_Connect (churn n)) = n"
  by (induction n) simp_all

text \<open>
  C2, as the code has it. In a run that starts with the counter at \<open>c\<close> and accepts
  \<open>n\<close> connections, whatever frames, closes and errors come between them, the
  identities handed out are strictly increasing, pairwise distinct and above \<open>c\<close>,
  provided \<open>c + n\<close> is at most \<open>2 ^ 53\<close>.
\<close>

theorem identities_increase:
  "connectionIdCounter s + length (filter is_Connect evs) \<le> 2 ^ 53 \<Longrightarrow>
   sorted_wrt (<) (fst (run evs s)) \<and> distinct (fst (run evs s))
   \<and> (\<forall>i \<in> set (fst (run evs s)). connectionIdCounter s < i)"
proof -
  assume b: "connectionIdCounter s + length (filter is_Connect evs) \<le> 2 ^ 53"
  let ?ids = "fst (run evs s)"
  have n: "\<And>i. i < length ?ids \<Longrightarrow> ?ids ! i = connectionIdCounter s + i + 1"
    using run_ids_nth [of s _ evs] b by (simp add: run_ids_length min_def)
  have s: "sorted_wrt (<) ?ids"
    by (simp add: sorted_wrt_iff_nth_less n)
  have d: "distinct ?ids"
    by (simp add: distinct_conv_nth n)
  have "\<forall>i \<in> set ?ids. connectionIdCounter s < i"
    by (auto simp: in_set_conv_nth n)
  with s d show ?thesis by simp
qed

theorem identities_increase_witness:
  "connectionIdCounter initial_state + length (filter is_Connect three_connects) \<le> 2 ^ 53
   \<and> fst (run three_connects initial_state) = [1, 2, 3]
   \<and> sorted_wrt (<) (fst (run three_connects initial_state))
   \<and> distinct (fst (run three_connects initial_state))"
proof -
  have h: "connectionIdCounter initial_state + length (filter is_Connect three_connects) \<le> 2 ^ 53"
    by (simp add: initial_state_def three_connects_def)
  have v: "fst (run three_connects initial_state) = [1, 2, 3]"
    by (simp add: three_connects_def initial_state_def on_connection_def incr_def Let_def
        counter_on_message counter_on_close)
  show ?thesis
    using h v identities_increase [OF h] by simp
qed

text \<open>
  The claim as it is written fails on the run that accepts \<open>2 ^ 53 + 1\<close> connections
  from the start of the process, one at a time: the last two get the same identity.
\<close>

theorem identities_collide:
  "\<not> distinct (fst (run (churn (2 ^ 53 + 1)) initial_state))"
proof -
  let ?ids = "fst (run (churn (2 ^ 53 + 1)) initial_state)"
  have l: "length ?ids = 2 ^ 53 + 1"
    by (simp only: run_ids_length connects_of_churn)
  have a: "?ids ! (2 ^ 53 - 1) = 2 ^ 53"
    using run_ids_nth [of initial_state "2 ^ 53 - 1" "churn (2 ^ 53 + 1)"] l
    by (simp add: initial_state_def)
  have b: "?ids ! (2 ^ 53) = 2 ^ 53"
    using run_ids_nth [of initial_state "2 ^ 53" "churn (2 ^ 53 + 1)"] l
    by (simp add: initial_state_def)
  have "(2::nat) ^ 53 - 1 < length ?ids" "(2::nat) ^ 53 < length ?ids"
    "(2::nat) ^ 53 - 1 \<noteq> 2 ^ 53"
    using l by simp_all
  with a b show ?thesis
    by (metis nth_eq_iff_index_eq)
qed

section \<open>Failing writes\<close>

lemma written_on_socket:
  "ok k \<Longrightarrow> filter (\<lambda>e. fst e = k) (written ok out) = filter (\<lambda>e. fst e = k) out"
  by (induction out) (auto simp: written_def)

text \<open>
  C4, as the code has it. Take a registry in which every channel has a string, a
  channel that has one, and a transport on which no \<open>send\<close> to a recipient throws,
  whatever becomes of the writes afterwards. Then the loop runs to its end: the count
  that \<open>broadcastToChannel\<close> returns is the number of live, not excluded, subscribed
  records, which is the number of sends, one on the socket of each of them, so a
  recipient whose write fails is counted; and every recipient whose own write succeeds
  is written the payload once.
\<close>

theorem broadcastToChannel_counts_sends:
  "distinct (sockets_of (connections s)) \<Longrightarrow>
   list_all (\<lambda>p. list_all converts (channels (snd p))) (connections s) \<Longrightarrow>
   converts channel \<Longrightarrow>
   \<forall>p \<in> set (connections s).
     recipient rs channel excludeId (snd p) \<longrightarrow> \<not> raises (ws (snd p)) \<Longrightarrow>
   fst (broadcastToChannel_with raises rs channel payload excludeId s)
     = Inr (length (filter (recipient rs channel excludeId) (map snd (connections s))))
   \<and> length (snd (broadcastToChannel_with raises rs channel payload excludeId s))
     = length (filter (recipient rs channel excludeId) (map snd (connections s)))
   \<and> (\<forall>p \<in> set (connections s).
        recipient rs channel excludeId (snd p) \<longrightarrow>
        filter (\<lambda>e. fst e = ws (snd p))
          (snd (broadcastToChannel_with raises rs channel payload excludeId s))
          = [(ws (snd p), payload)])
   \<and> (\<forall>p \<in> set (connections s).
        recipient rs channel excludeId (snd p) \<and> ok (ws (snd p)) \<longrightarrow>
        filter (\<lambda>e. fst e = ws (snd p))
          (written ok (snd (broadcastToChannel_with raises rs channel payload excludeId s)))
          = [(ws (snd p), payload)])"
proof -
  assume d: "distinct (sockets_of (connections s))"
    and c: "list_all (\<lambda>p. list_all converts (channels (snd p))) (connections s)"
      "converts channel"
    and n: "\<forall>p \<in> set (connections s).
              recipient rs channel excludeId (snd p) \<longrightarrow> \<not> raises (ws (snd p))"
  from d have d': "distinct (map ws (map snd (connections s)))"
    by (simp add: sockets_of_def comp_def)
  note e = broadcastToChannel_with_eq [OF c n]
  have one: "filter (\<lambda>e. fst e = ws (snd p))
               (snd (broadcastToChannel_with raises rs channel payload excludeId s))
             = [(ws (snd p), payload)]"
    if "p \<in> set (connections s)" and "recipient rs channel excludeId (snd p)" for p
  proof -
    from that(1) have "snd p \<in> set (map snd (connections s))" by simp
    then show ?thesis
      using that(2) by (simp only: e snd_conv sends_on_socket [OF d']) simp
  qed
  show ?thesis
  proof (intro conjI ballI impI)
    show "fst (broadcastToChannel_with raises rs channel payload excludeId s)
     = Inr (length (filter (recipient rs channel excludeId) (map snd (connections s))))"
      by (simp add: e)
    show "length (snd (broadcastToChannel_with raises rs channel payload excludeId s))
     = length (filter (recipient rs channel excludeId) (map snd (connections s)))"
      by (simp add: e)
    fix p assume p: "p \<in> set (connections s)"
    { assume "recipient rs channel excludeId (snd p)"
      then show "filter (\<lambda>e. fst e = ws (snd p))
          (snd (broadcastToChannel_with raises rs channel payload excludeId s))
          = [(ws (snd p), payload)]"
        using p by (rule one [rotated]) }
    { assume r: "recipient rs channel excludeId (snd p) \<and> ok (ws (snd p))"
      then show "filter (\<lambda>e. fst e = ws (snd p))
          (written ok (snd (broadcastToChannel_with raises rs channel payload excludeId s)))
          = [(ws (snd p), payload)]"
        using one [OF p] by (simp add: written_on_socket) }
  qed
qed

lemma four_gaming:
  "broadcastToChannel four_ready (JStr ''gaming'') payload None four
     = (Inr 2, [(10, payload), (40, payload)])"
  by (simp add: broadcastToChannel_def broadcastToChannel_with_def four_def four_ready_def
      set_has_def)

lemma four_gaming_with:
  "broadcastToChannel_with throws_on_30 four_ready (JStr ''gaming'') payload None four
     = (Inr 2, [(10, payload), (40, payload)])"
  by (simp add: broadcastToChannel_with_def four_def four_ready_def set_has_def
      throws_on_30_def)

theorem broadcastToChannel_counts_sends_witness:
  "distinct (sockets_of (connections four))
   \<and> list_all (\<lambda>p. list_all converts (channels (snd p))) (connections four)
   \<and> converts (JStr ''gaming'')
   \<and> list_all (\<lambda>p. recipient four_ready (JStr ''gaming'') None (snd p)
                      \<longrightarrow> \<not> throws_on_30 (ws (snd p))) (connections four)
   \<and> (4, player_four) \<in> set (connections four)
   \<and> recipient four_ready (JStr ''gaming'') None player_four
   \<and> \<not> lossy (ws player_four)
   \<and> (1, player_one) \<in> set (connections four)
   \<and> recipient four_ready (JStr ''gaming'') None player_one
   \<and> lossy (ws player_one)
   \<and> fst (broadcastToChannel_with throws_on_30 four_ready (JStr ''gaming'') (Pong 7) None four)
       = Inr 2
   \<and> filter (\<lambda>e. fst e = ws player_four)
        (snd (broadcastToChannel_with throws_on_30 four_ready (JStr ''gaming'') (Pong 7) None
                four))
       = [(40, Pong 7)]
   \<and> filter (\<lambda>e. fst e = ws player_one)
        (written lossy
           (snd (broadcastToChannel_with throws_on_30 four_ready (JStr ''gaming'') (Pong 7)
                   None four)))
       = [(10, Pong 7)]"
proof -
  have d: "distinct (sockets_of (connections four))"
    by (simp add: four_def sockets_of_def)
  have c: "list_all (\<lambda>p. list_all converts (channels (snd p))) (connections four)"
    "converts (JStr ''gaming'')"
    by (simp_all add: four_def)
  have n: "list_all (\<lambda>p. recipient four_ready (JStr ''gaming'') None (snd p)
                      \<longrightarrow> \<not> throws_on_30 (ws (snd p))) (connections four)"
    by (simp add: four_def throws_on_30_def recipient_def set_has_def)
  then have n': "\<forall>p \<in> set (connections four).
                   recipient four_ready (JStr ''gaming'') None (snd p)
                   \<longrightarrow> \<not> throws_on_30 (ws (snd p))"
    by (simp add: list_all_iff)
  have p4: "(4, player_four) \<in> set (connections four)"
    and p1: "(1, player_one) \<in> set (connections four)"
    by (simp_all add: four_def player_one_def player_four_def)
  have r4: "recipient four_ready (JStr ''gaming'') None (snd (4::nat, player_four))"
    and r1: "recipient four_ready (JStr ''gaming'') None (snd (1::nat, player_one))
             \<and> lossy (ws (snd (1::nat, player_one)))"
    and l4: "\<not> lossy (ws player_four)"
    by (simp_all add: recipient_def four_ready_def player_one_def player_four_def set_has_def
        lossy_def)
  note t = broadcastToChannel_counts_sends [OF d c n', of "Pong 7" lossy]
  have a: "fst (broadcastToChannel_with throws_on_30 four_ready (JStr ''gaming'') (Pong 7)
                  None four) = Inr 2"
    using t [THEN conjunct1] by (simp add: four_gaming_with)
  have b4: "filter (\<lambda>e. fst e = ws (snd (4::nat, player_four)))
        (snd (broadcastToChannel_with throws_on_30 four_ready (JStr ''gaming'') (Pong 7) None
                four))
       = [(ws (snd (4::nat, player_four)), Pong 7)]"
    using t [THEN conjunct2, THEN conjunct2, THEN conjunct1, THEN bspec, OF p4, THEN mp,
        OF r4] .
  have b1: "filter (\<lambda>e. fst e = ws (snd (1::nat, player_one)))
        (written lossy
           (snd (broadcastToChannel_with throws_on_30 four_ready (JStr ''gaming'') (Pong 7)
                   None four)))
       = [(ws (snd (1::nat, player_one)), Pong 7)]"
    using t [THEN conjunct2, THEN conjunct2, THEN conjunct2, THEN bspec, OF p1, THEN mp,
        OF r1] .
  have v: "ws player_one = 10" "ws player_four = 40"
    by (simp_all add: player_one_def player_four_def)
  show ?thesis
    using d c n p4 p1 r4 r1 l4 a b4 b1 by (simp add: v)
qed

text \<open>
  The claim as it is written fails in the state with four connections: connection 4
  is live and subscribed to \<open>gaming\<close>, the write on its socket fails, and it is counted
  all the same: the count is 2 while one payload is written.
\<close>

theorem failed_write_is_counted:
  "fst (broadcastToChannel four_ready (JStr ''gaming'') (Pong 7) None four) = Inr 2
   \<and> written lossy (snd (broadcastToChannel four_ready (JStr ''gaming'') (Pong 7) None four))
       = [(10, Pong 7)]
   \<and> four_ready 40 = OPEN \<and> \<not> lossy 40
   \<and> map_get (connections four) 4 =
       Some \<lparr>id_conn = 4, ws = 40, ip = JStr ''::1'', channels = [JStr ''gaming''],
              connectedAt = 130\<rparr>"
proof -
  have "map_get (connections four) 4 =
       Some \<lparr>id_conn = 4, ws = 40, ip = JStr ''::1'', channels = [JStr ''gaming''],
              connectedAt = 130\<rparr>"
    by (simp add: four_def map_get_def)
  then show ?thesis
    by (simp add: four_gaming written_def lossy_def four_ready_def)
qed

text \<open>
  Nothing in the loop catches a \<open>send\<close> that throws: on the transport that throws on
  socket 10 the same delivery ends at the first record, with no count and nothing
  sent to socket 40.
\<close>

lemma throwing_send_ends_fan_out:
  "broadcastToChannel_with throws_on_10 four_ready (JStr ''gaming'') payload None four
     = (Inl SendError, [])"
  by (simp add: broadcastToChannel_with_def four_def four_ready_def set_has_def
      throws_on_10_def)

section \<open>Direct messages\<close>

lemma map_get_val_nat: "map_get_val m (JNum (of_nat k)) = map_get m k"
  by (induction m) (auto simp: map_get_val_def map_get_def)

lemma on_message_direct:
  "field message ''type'' = JStr ''direct'' \<Longrightarrow>
   on_message rs sk connectionId (Inr message) now later s =
     (s, case map_get_val (connections s) (field message ''targetId'') of
           Some targetConn \<Rightarrow>
             if rs (ws targetConn) = OPEN
             then [(ws targetConn, DirectMessage connectionId (field message ''data'') now)]
             else []
         | None \<Rightarrow> [])"
  by (auto simp: on_message_def get_prop_def dispatch_def split: option.splits)

text \<open>
  C6, as the code has it. A frame of type \<open>direct\<close> changes no state. When its
  \<open>targetId\<close> is the key of a record whose socket is open, the handler sends one
  event, a \<open>direct_message\<close> with the sender's identity and the data, on the socket of
  that record; when the target is not found, or its socket is not open, it sends
  nothing at all, so nothing goes back to the sender either. A \<open>targetId\<close> that is the
  number \<open>k\<close> finds what is stored under \<open>k\<close>. In no case is anything reported: the call
  of the listener has the value \<open>undefined\<close>.
\<close>

theorem direct_delivery:
  "field message ''type'' = JStr ''direct'' \<Longrightarrow>
   (\<forall>targetConn.
      map_get_val (connections s) (field message ''targetId'') = Some targetConn
      \<and> rs (ws targetConn) = OPEN \<longrightarrow>
      on_message rs sk fromId (Inr message) now later s =
        (s, [(ws targetConn, DirectMessage fromId (field message ''data'') now)]))
   \<and> (map_get_val (connections s) (field message ''targetId'') = None \<longrightarrow>
        on_message rs sk fromId (Inr message) now later s = (s, []))
   \<and> (\<forall>targetConn.
        map_get_val (connections s) (field message ''targetId'') = Some targetConn
        \<and> rs (ws targetConn) \<noteq> OPEN \<longrightarrow>
        on_message rs sk fromId (Inr message) now later s = (s, []))
   \<and> map_get_val (connections s) (JNum (of_nat k)) = map_get (connections s) k
   \<and> on_message_returns rs sk fromId (Inr message) now later s = JUndefined"
  by (simp add: on_message_direct map_get_val_nat on_message_returns_def)

theorem direct_delivery_witness:
  "field direct_to_four ''type'' = JStr ''direct''
   \<and> map_get_val (connections four) (field direct_to_four ''targetId'')
       = Some \<lparr>id_conn = 4, ws = 40, ip = JStr ''::1'', channels = [JStr ''gaming''],
                connectedAt = 130\<rparr>
   \<and> four_ready 40 = OPEN
   \<and> on_message four_ready 10 1 (Inr direct_to_four) 7 8 four
       = (four, [(40, DirectMessage 1 (JStr ''psst'') 7)])
   \<and> on_message_returns four_ready 10 1 (Inr direct_to_four) 7 8 four = JUndefined"
proof -
  have h: "field direct_to_four ''type'' = JStr ''direct''"
    by (simp add: direct_to_four_def)
  have g: "map_get_val (connections four) (field direct_to_four ''targetId'')
       = Some \<lparr>id_conn = 4, ws = 40, ip = JStr ''::1'', channels = [JStr ''gaming''],
                connectedAt = 130\<rparr>"
    by (simp add: direct_to_four_def four_def map_get_val_def)
  have o: "four_ready 40 = OPEN" by (simp add: four_ready_def)
  have d: "field direct_to_four ''data'' = JStr ''psst''" by (simp add: direct_to_four_def)
  show ?thesis
    using direct_delivery [OF h, of four four_ready 10 1 7 8] g o d h by simp
qed

text \<open>
  The claim as it is written fails on the direct message of connection 1 to connection
  4 in the state with four connections: the target is registered and its socket is
  open, the message is delivered, and the call reports nothing, not \<open>true\<close>: its value
  is \<open>undefined\<close> and no event goes to the socket of the sender.
\<close>

theorem direct_reports_nothing:
  "map_get (connections four) 4 = Some player_four
   \<and> four_ready (ws player_four) = OPEN
   \<and> on_message four_ready 10 1 (Inr direct_to_four) 7 8 four
       = (four, [(40, DirectMessage 1 (JStr ''psst'') 7)])
   \<and> on_message_returns four_ready 10 1 (Inr direct_to_four) 7 8 four \<noteq> JBool True"
proof -
  have h: "field direct_to_four ''type'' = JStr ''direct''"
    by (simp add: direct_to_four_def)
  have g: "map_get (connections four) 4 = Some player_four"
    "four_ready (ws player_four) = OPEN"
    by (simp_all add: four_def player_four_def map_get_def four_ready_def)
  have v: "map_get_val (connections four) (field direct_to_four ''targetId'') = Some player_four"
    "field direct_to_four ''data'' = JStr ''psst''" "ws player_four = 40"
    by (simp_all add: direct_to_four_def four_def player_four_def map_get_val_def)
  have "on_message four_ready 10 1 (Inr direct_to_four) 7 8 four
       = (four, [(40, DirectMessage 1 (JStr ''psst'') 7)])"
    using g(2) by (simp add: on_message_direct [OF h] v)
  then show ?thesis using g by (simp add: on_message_returns_def)
qed

section \<open>Unsubscription\<close>

lemma on_message_unsubscribe:
  "field message ''type'' = JStr ''unsubscribe'' \<Longrightarrow>
   on_message rs sk connectionId (Inr message) now later s =
     (case map_get (connections s) connectionId of
        Some c \<Rightarrow>
          (s\<lparr>connections := map_set connectionId
                (c\<lparr>channels := set_delete (channels c) (field message ''channel'')\<rparr>)
                (connections s)\<rparr>,
           (sk, Unsubscribed (field message ''channel'') now)
           # (if converts (field message ''channel'') then []
              else [(sk, Error ''Invalid message format'' later)]))
      | None \<Rightarrow> (s, []))"
  by (auto simp: on_message_def get_prop_def dispatch_def split: option.splits)

lemma on_message_subscribe:
  "field message ''type'' = JStr ''subscribe'' \<Longrightarrow>
   on_message rs sk connectionId (Inr message) now later s =
     (case map_get (connections s) connectionId of
        Some c \<Rightarrow>
          (s\<lparr>connections := map_set connectionId
                (c\<lparr>channels := set_add (channels c) (field message ''channel'')\<rparr>)
                (connections s)\<rparr>,
           (sk, Subscribed (field message ''channel'') now)
           # (if converts (field message ''channel'') then []
              else [(sk, Error ''Invalid message format'' later)]))
      | None \<Rightarrow> (s, []))"
  by (auto simp: on_message_def get_prop_def dispatch_def split: option.splits)

lemma set_delete_absent: "\<not> set_has xs v \<Longrightarrow> set_delete xs v = xs"
  by (auto simp: set_has_def set_delete_def)

lemma alone_reached: "snd (run one_connect initial_state) = alone"
  by (simp add: one_connect_def initial_state_def on_connection_def incr_def Let_def alone_def)

text \<open>
  C7. Unsubscribing from a channel that the connection is not in is to be no error:
  the set stays and the acknowledgement is all that is sent. For the channel without a
  string it is otherwise: the one connection of a server that has just accepted it is
  not in that channel, its frame leaves the state as it is and is acknowledged, but
  the line written after the acknowledgement throws and the \<open>error\<close> event follows on
  the same socket.
\<close>

theorem unsubscribe_answers_error:
  "snd (run one_connect initial_state) = alone
   \<and> field unsubscribe_poison ''type'' = JStr ''unsubscribe''
   \<and> map_get (connections alone) 1
       = Some \<lparr>id_conn = 1, ws = 10, ip = JStr ''::1'', channels = [JStr ''default''],
                connectedAt = 100\<rparr>
   \<and> \<not> set_has [JStr ''default''] (field unsubscribe_poison ''channel'')
   \<and> on_message all_open 10 1 (Inr unsubscribe_poison) 7 8 alone
       = (alone, [(10, Unsubscribed poison 7), (10, Error ''Invalid message format'' 8)])"
proof -
  have h: "field unsubscribe_poison ''type'' = JStr ''unsubscribe''"
    by (simp add: unsubscribe_poison_def)
  have g: "map_get (connections alone) 1
       = Some \<lparr>id_conn = 1, ws = 10, ip = JStr ''::1'', channels = [JStr ''default''],
                connectedAt = 100\<rparr>"
    by (simp add: alone_def map_get_def)
  have c: "field unsubscribe_poison ''channel'' = poison" "\<not> converts poison"
    "\<not> set_has [JStr ''default''] poison"
    by (simp_all add: unsubscribe_poison_def poison_def set_has_def)
  have "on_message all_open 10 1 (Inr unsubscribe_poison) 7 8 alone
       = (alone, [(10, Unsubscribed poison 7), (10, Error ''Invalid message format'' 8)])"
    using g c
    by (simp add: on_message_unsubscribe [OF h] set_delete_absent map_set_unchanged)
  then show ?thesis using alone_reached h g c by simp
qed

section \<open>Unknown types\<close>

text \<open>
  C8. A decoded frame other than \<open>null\<close> whose \<open>type\<close> is none of the five the
  \<open>switch\<close> knows changes no state and is answered by one send, on the socket it came
  from: the \<open>echo\<close> event with the frame as \<open>original\<close>.
\<close>

theorem unknown_type_echoed:
  "message \<noteq> JNull \<Longrightarrow> message \<noteq> JUndefined \<Longrightarrow>
   field message ''type'' \<notin> {JStr ''subscribe'', JStr ''unsubscribe'', JStr ''message'',
                               JStr ''direct'', JStr ''ping''} \<Longrightarrow>
   on_message rs sk connectionId (Inr message) now later s = (s, [(sk, Echo message now)])"
  by (simp add: on_message_def get_prop_def dispatch_def)

theorem unknown_type_echoed_witness:
  "shout \<noteq> JNull \<and> shout \<noteq> JUndefined
   \<and> field shout ''type'' \<notin> {JStr ''subscribe'', JStr ''unsubscribe'', JStr ''message'',
                               JStr ''direct'', JStr ''ping''}
   \<and> on_message four_ready 10 1 (Inr shout) 7 8 four = (four, [(10, Echo shout 7)])"
proof -
  have a: "shout \<noteq> JNull" "shout \<noteq> JUndefined" by (simp_all add: shout_def)
  have b: "field shout ''type'' \<notin> {JStr ''subscribe'', JStr ''unsubscribe'', JStr ''message'',
                               JStr ''direct'', JStr ''ping''}"
    by (simp add: shout_def)
  show ?thesis
    using unknown_type_echoed [OF a b, of four_ready 10 1 7 8 four] a b by simp
qed

section \<open>Closing a connection\<close>

lemma api_loop_eq:
  "api_loop rs channel message clock m acc =
     (fst acc + length (filter (is_open rs) (map snd m)),
      snd acc @ map (\<lambda>q. (ws (snd q), Broadcast channel message (clock (fst q))))
                  (enumerate (fst acc) (filter (is_open rs) (map snd m))))"
  by (induction m arbitrary: acc) (auto simp: is_open_def)

lemma heartbeat_loop_eq:
  "heartbeat_loop rs clock m acc =
     (fst acc + length (filter (is_open rs) (map snd m)),
      snd acc @ map (\<lambda>q. (ws (snd q), Heartbeat (clock (fst q))))
                  (enumerate (fst acc) (filter (is_open rs) (map snd m))))"
  by (induction m arbitrary: acc) (auto simp: is_open_def)

lemma enumerate_sockets:
  "map (\<lambda>q. ws (snd q)) (enumerate n cs) = map ws cs"
  by (induction cs arbitrary: n) auto

lemma api_loop_sockets:
  "map fst (snd (api_loop rs channel message clock m (0, [])))
     = map ws (filter (is_open rs) (map snd m))"
  by (simp add: api_loop_eq comp_def enumerate_sockets)

lemma heartbeat_sockets:
  "map fst (heartbeat rs clock s) = map ws (filter (is_open rs) (map snd (connections s)))"
  by (simp add: heartbeat_def heartbeat_loop_eq comp_def enumerate_sockets)

lemma map_get_member: "map_get m k = Some c \<Longrightarrow> (k, c) \<in> set m"
  by (auto simp: map_get_def dest: map_of_SomeD)

lemma map_get_val_member: "map_get_val m v = Some t \<Longrightarrow> ws t \<in> set (sockets_of m)"
  by (cases v) (force simp: map_get_val_def sockets_of_def dest!: map_of_SomeD)+

lemma map_get_delete: "map_get (map_delete k m) k = None"
  by (induction m) (auto simp: map_get_def map_delete_def)

lemma closed_socket_gone:
  assumes "wf_state s" and "map_get (connections s) connectionId = Some c"
  shows "ws c \<notin> set (sockets_of (connections (on_close connectionId s)))"
proof
  assume "ws c \<in> set (sockets_of (connections (on_close connectionId s)))"
  then obtain p where p: "p \<in> set (connections s)" "fst p \<noteq> connectionId" "ws (snd p) = ws c"
    by (auto simp: on_close_def map_delete_def sockets_of_def)
  have m: "(connectionId, c) \<in> set (connections s)" using assms(2) by (rule map_get_member)
  have "inj_on (\<lambda>p. ws (snd p)) (set (connections s))"
    using assms(1) by (simp add: wf_state_def sockets_of_def distinct_map)
  then have "p = (connectionId, c)"
    using p(1,3) m inj_onD [of "\<lambda>p. ws (snd p)" "set (connections s)" p "(connectionId, c)"]
    by simp
  then show False using p(2) by simp
qed

text \<open>
  C5, as the code has it. The \<open>close\<close> listener removes the record of its
  connection: the identity is then found no more, a direct message to it sends
  nothing, and no channel delivery, direct message, broadcast request or heartbeat sends
  on the socket the record held. The \<open>error\<close> listener leaves the state as it is.
\<close>

theorem close_removes_record:
  "wf_state s \<Longrightarrow> map_get (connections s) connectionId = Some c \<Longrightarrow>
   map_get (connections (on_close connectionId s)) connectionId = None
   \<and> ws c \<notin> fst ` set (snd (broadcastToChannel rs channel payload excludeId
                              (on_close connectionId s)))
   \<and> (field message ''type'' = JStr ''direct'' \<longrightarrow>
        ws c \<notin> fst ` set (snd (on_message rs sk fromId (Inr message) now later
                                (on_close connectionId s)))
        \<and> (field message ''targetId'' = JNum (of_nat connectionId) \<longrightarrow>
             snd (on_message rs sk fromId (Inr message) now later (on_close connectionId s)) = []))
   \<and> (\<forall>r out. api_broadcast rs body clock (on_close connectionId s) = Inr (r, out) \<longrightarrow>
        ws c \<notin> fst ` set out)
   \<and> ws c \<notin> fst ` set (heartbeat rs clock (on_close connectionId s))
   \<and> on_error connectionId s = s"
proof (intro conjI impI allI)
  assume w: "wf_state s" and g: "map_get (connections s) connectionId = Some c"
  let ?s' = "on_close connectionId s"
  note gone = closed_socket_gone [OF w g]
  show n: "map_get (connections ?s') connectionId = None"
    by (simp add: on_close_def map_get_delete)
  show "ws c \<notin> fst ` set (snd (broadcastToChannel rs channel payload excludeId ?s'))"
    using gone broadcastToChannel_sockets [of rs channel payload excludeId ?s'] by blast
  show "ws c \<notin> fst ` set (heartbeat rs clock ?s')"
  proof -
    have "fst ` set (heartbeat rs clock ?s') \<subseteq> set (sockets_of (connections ?s'))"
      unfolding set_map [symmetric] heartbeat_sockets by (auto simp: sockets_of_def)
    then show ?thesis using gone by blast
  qed
  show "on_error connectionId s = s" by (simp add: on_error_def)
  { fix r out assume "api_broadcast rs body clock ?s' = Inr (r, out)"
    then have "map fst out = map ws (filter (is_open rs) (map snd (connections ?s')))"
      by (auto simp: api_broadcast_def Let_def api_loop_sockets split: if_splits)
    then have "fst ` set out \<subseteq> set (sockets_of (connections ?s'))"
      unfolding set_map [symmetric] by (auto simp: sockets_of_def)
    then show "ws c \<notin> fst ` set out" using gone by blast }
  { assume d: "field message ''type'' = JStr ''direct''"
    show "ws c \<notin> fst ` set (snd (on_message rs sk fromId (Inr message) now later ?s'))"
    proof (cases "map_get_val (connections ?s') (field message ''targetId'')")
      case None
      then show ?thesis by (simp add: on_message_direct [OF d])
    next
      case (Some t)
      then have "ws t \<in> set (sockets_of (connections ?s'))"
        by (rule map_get_val_member)
      then have "ws t \<noteq> ws c" using gone by auto
      then show ?thesis using Some by (auto simp: on_message_direct [OF d])
    qed
    assume "field message ''targetId'' = JNum (of_nat connectionId)"
    then show "snd (on_message rs sk fromId (Inr message) now later ?s') = []"
      by (simp add: on_message_direct [OF d] map_get_val_nat n) }
qed

theorem close_removes_record_witness:
  "wf_state four
   \<and> map_get (connections four) 4 = Some player_four
   \<and> map_get (connections (on_close 4 four)) 4 = None
   \<and> ws player_four \<notin> fst ` set (snd (broadcastToChannel four_ready (JStr ''gaming'') (Pong 7)
                                        None (on_close 4 four)))
   \<and> field direct_to_four ''type'' = JStr ''direct''
   \<and> field direct_to_four ''targetId'' = JNum (of_nat 4)
   \<and> snd (on_message four_ready 10 1 (Inr direct_to_four) 7 8 (on_close 4 four)) = []
   \<and> ws player_four \<notin> fst ` set (heartbeat four_ready ticking (on_close 4 four))
   \<and> on_error 4 four = four"
proof -
  have g: "map_get (connections four) 4 = Some player_four"
    by (simp add: four_def player_four_def map_get_def)
  have d: "field direct_to_four ''type'' = JStr ''direct''"
    "field direct_to_four ''targetId'' = JNum (of_nat 4)"
    by (simp_all add: direct_to_four_def)
  note t = close_removes_record [OF wf_four g, of four_ready "JStr ''gaming''" "Pong 7" None
      direct_to_four 10 1 7 8 JNull ticking]
  show ?thesis
    using wf_four g d t by simp
qed

text \<open>
  The claim as it is written fails on a transport error: after the \<open>error\<close> listener
  of connection 4 has run, its record is still found under 4.
\<close>

theorem error_keeps_record:
  "map_get (connections (on_error 4 four)) 4 = Some player_four"
  by (simp add: on_error_def four_def player_four_def map_get_def)

section \<open>The broadcast endpoint\<close>

lemma count_by_fst:
  "length (filter (\<lambda>e. fst e = k) out) = length (filter (\<lambda>x. x = k) (map fst out))"
  by (induction out) auto

lemma one_per_socket:
  assumes "distinct (map ws cs)" and "c \<in> set cs"
  shows "length (filter (\<lambda>x. x = ws c) (map ws (filter P cs))) = (if P c then 1 else 0)"
proof -
  have "filter (\<lambda>x. x = ws c) (map ws (filter P cs))
          = map ws (filter P (filter (\<lambda>x. ws x = ws c) cs))"
    by (simp add: filter_map comp_def conj_commute)
  then show ?thesis using filter_same_socket [OF assms] by simp
qed

lemma api_loop_channels:
  "api_loop rs channel message clock
     (map (\<lambda>p. (fst p, (snd p)\<lparr>channels := chs p\<rparr>)) m) acc
   = api_loop rs channel message clock m acc"
  by (induction m arbitrary: acc) auto

text \<open>
  C9. A broadcast request with a body sends the \<open>broadcast\<close> event, labelled with
  the channel of the body or with \<open>default\<close> when the body has none, once on the
  socket of every record whose socket is open and on no other, in the order of the
  registry, each with the clock reading of its send; it answers with the number of
  those records. The channels of the records have no part in it: with any other
  channels in the records the outcome is the same.
\<close>

theorem api_broadcast_reaches_every_open:
  "body \<noteq> JNull \<Longrightarrow> body \<noteq> JUndefined \<Longrightarrow> distinct (sockets_of (connections s)) \<Longrightarrow>
   api_broadcast rs body clock s =
     Inr (BroadcastResult True (length (filter (is_open rs) (map snd (connections s)))),
          map (\<lambda>q. (ws (snd q),
                     Broadcast (if field body ''channel'' = JUndefined then JStr ''default''
                                else field body ''channel'')
                       (field body ''message'') (clock (fst q))))
            (enumerate 0 (filter (is_open rs) (map snd (connections s)))))
   \<and> (\<forall>p \<in> set (connections s).
        length (filter (\<lambda>e. fst e = ws (snd p))
                  (snd (projr (api_broadcast rs body clock s))))
          = (if is_open rs (snd p) then 1 else 0))
   \<and> api_broadcast rs body clock
        (s\<lparr>connections := map (\<lambda>p. (fst p, (snd p)\<lparr>channels := chs p\<rparr>)) (connections s)\<rparr>)
      = api_broadcast rs body clock s"
proof (intro conjI ballI)
  assume b: "body \<noteq> JNull" "body \<noteq> JUndefined"
    and d: "distinct (sockets_of (connections s))"
  from d have d': "distinct (map ws (map snd (connections s)))"
    by (simp add: sockets_of_def comp_def)
  show e: "api_broadcast rs body clock s =
     Inr (BroadcastResult True (length (filter (is_open rs) (map snd (connections s)))),
          map (\<lambda>q. (ws (snd q),
                     Broadcast (if field body ''channel'' = JUndefined then JStr ''default''
                                else field body ''channel'')
                       (field body ''message'') (clock (fst q))))
            (enumerate 0 (filter (is_open rs) (map snd (connections s)))))"
    using b by (simp add: api_broadcast_def Let_def api_loop_eq)
  show "api_broadcast rs body clock
        (s\<lparr>connections := map (\<lambda>p. (fst p, (snd p)\<lparr>channels := chs p\<rparr>)) (connections s)\<rparr>)
      = api_broadcast rs body clock s"
    by (simp add: api_broadcast_def Let_def api_loop_channels)
  fix p assume "p \<in> set (connections s)"
  then have m: "snd p \<in> set (map snd (connections s))" by simp
  have "map fst (snd (projr (api_broadcast rs body clock s)))
          = map ws (filter (is_open rs) (map snd (connections s)))"
    by (simp add: e comp_def enumerate_sockets)
  then show "length (filter (\<lambda>e. fst e = ws (snd p))
                  (snd (projr (api_broadcast rs body clock s))))
          = (if is_open rs (snd p) then 1 else 0)"
    by (simp only: count_by_fst one_per_socket [OF d' m])
qed

theorem api_broadcast_reaches_every_open_witness:
  "maintenance \<noteq> JNull \<and> maintenance \<noteq> JUndefined
   \<and> distinct (sockets_of (connections four))
   \<and> api_broadcast four_ready maintenance ticking four =
       Inr (BroadcastResult True 3,
            [(10, Broadcast (JStr ''alerts'') (JStr ''maintenance'') 50),
             (30, Broadcast (JStr ''alerts'') (JStr ''maintenance'') 51),
             (40, Broadcast (JStr ''alerts'') (JStr ''maintenance'') 52)])"
proof -
  have b: "maintenance \<noteq> JNull" "maintenance \<noteq> JUndefined"
    by (simp_all add: maintenance_def)
  have d: "distinct (sockets_of (connections four))"
    by (simp add: four_def sockets_of_def)
  have f: "field maintenance ''channel'' = JStr ''alerts''"
    "field maintenance ''message'' = JStr ''maintenance''"
    by (simp_all add: maintenance_def)
  have o: "filter (is_open four_ready) (map snd (connections four))
             = [snd (connections four ! 0), snd (connections four ! 2), snd (connections four ! 3)]"
    by (simp add: four_def four_ready_def is_open_def)
  have v: "ws (snd (connections four ! 0)) = 10" "ws (snd (connections four ! 2)) = 30"
    "ws (snd (connections four ! 3)) = 40"
    by (simp_all add: four_def)
  have "api_broadcast four_ready maintenance ticking four =
       Inr (BroadcastResult True 3,
            [(10, Broadcast (JStr ''alerts'') (JStr ''maintenance'') 50),
             (30, Broadcast (JStr ''alerts'') (JStr ''maintenance'') 51),
             (40, Broadcast (JStr ''alerts'') (JStr ''maintenance'') 52)])"
    using api_broadcast_reaches_every_open [OF b d, of four_ready ticking, THEN conjunct1]
    by (simp add: f o v ticking_def enumerate_simps)
  then show ?thesis using b d by simp
qed

section \<open>What a subscription leaves alone\<close>

text \<open>
  C10. A frame of type \<open>subscribe\<close> or \<open>unsubscribe\<close> from a connection leaves the
  keys of the registry and their order, the counter and every record under another
  key as they were; when the connection has no record the state is unchanged, and
  when it has one the new record differs from it in the channels at most, so its
  identity, its socket, whose ready state is the liveness, its address and its
  creation time stay.
\<close>

theorem subscription_frame:
  "field message ''type'' = JStr ''subscribe'' \<or> field message ''type'' = JStr ''unsubscribe'' \<Longrightarrow>
   map fst (connections (fst (on_message rs sk connectionId (Inr message) now later s)))
     = map fst (connections s)
   \<and> connectionIdCounter (fst (on_message rs sk connectionId (Inr message) now later s))
     = connectionIdCounter s
   \<and> (\<forall>k. k \<noteq> connectionId \<longrightarrow>
        map_get (connections (fst (on_message rs sk connectionId (Inr message) now later s))) k
          = map_get (connections s) k)
   \<and> (map_get (connections s) connectionId = None \<longrightarrow>
        fst (on_message rs sk connectionId (Inr message) now later s) = s)
   \<and> (\<forall>c. map_get (connections s) connectionId = Some c \<longrightarrow>
        (\<exists>chs. map_get (connections (fst (on_message rs sk connectionId (Inr message) now later s)))
                  connectionId = Some (c\<lparr>channels := chs\<rparr>)))"
proof -
  assume "field message ''type'' = JStr ''subscribe'' \<or> field message ''type'' = JStr ''unsubscribe''"
  then have "\<exists>f. fst (on_message rs sk connectionId (Inr message) now later s) =
       (case map_get (connections s) connectionId of
          Some c \<Rightarrow> s\<lparr>connections := map_set connectionId (c\<lparr>channels := f c\<rparr>) (connections s)\<rparr>
        | None \<Rightarrow> s)"
  proof
    assume h: "field message ''type'' = JStr ''subscribe''"
    show ?thesis
      by (rule exI [of _ "\<lambda>c. set_add (channels c) (field message ''channel'')"])
        (simp add: on_message_subscribe [OF h] split: option.splits)
  next
    assume h: "field message ''type'' = JStr ''unsubscribe''"
    show ?thesis
      by (rule exI [of _ "\<lambda>c. set_delete (channels c) (field message ''channel'')"])
        (simp add: on_message_unsubscribe [OF h] split: option.splits)
  qed
  then obtain f where e: "fst (on_message rs sk connectionId (Inr message) now later s) =
       (case map_get (connections s) connectionId of
          Some c \<Rightarrow> s\<lparr>connections := map_set connectionId (c\<lparr>channels := f c\<rparr>) (connections s)\<rparr>
        | None \<Rightarrow> s)" ..
  show ?thesis
  proof (cases "map_get (connections s) connectionId")
    case None
    then show ?thesis using e by simp
  next
    case (Some c)
    then show ?thesis
      using e
      by (auto simp: map_set_present_keys map_get_map_set_other map_get_map_set_same
          intro: exI [of _ "f c"])
  qed
qed

theorem subscription_frame_witness:
  "(field join_chess ''type'' = JStr ''subscribe''
      \<or> field join_chess ''type'' = JStr ''unsubscribe'')
   \<and> map_get (connections four) 1 = Some player_one
   \<and> map fst (connections (fst (on_message four_ready 10 1 (Inr join_chess) 7 8 four)))
       = [1, 2, 3, 4]
   \<and> connectionIdCounter (fst (on_message four_ready 10 1 (Inr join_chess) 7 8 four)) = 4
   \<and> map_get (connections (fst (on_message four_ready 10 1 (Inr join_chess) 7 8 four))) 4
       = Some player_four
   \<and> (\<exists>chs. map_get (connections (fst (on_message four_ready 10 1 (Inr join_chess) 7 8 four))) 1
               = Some (player_one\<lparr>channels := chs\<rparr>))"
proof -
  have h: "field join_chess ''type'' = JStr ''subscribe''
      \<or> field join_chess ''type'' = JStr ''unsubscribe''"
    by (simp add: join_chess_def)
  have g: "map_get (connections four) 1 = Some player_one"
    by (simp add: four_def player_one_def map_get_def)
  have k: "map fst (connections four) = [1, 2, 3, 4]" "connectionIdCounter four = 4"
    "map_get (connections four) 4 = Some player_four"
    by (simp_all add: four_def player_four_def map_get_def)
  note t = subscription_frame [OF h, of four_ready 10 1 7 8 four]
  have "\<exists>chs. map_get (connections (fst (on_message four_ready 10 1 (Inr join_chess) 7 8 four))) 1
               = Some (player_one\<lparr>channels := chs\<rparr>)"
    using t g by blast
  moreover have "map_get (connections (fst (on_message four_ready 10 1 (Inr join_chess) 7 8 four))) 4
       = Some player_four"
    using t k(3) by simp
  ultimately show ?thesis
    using h g k t by simp
qed

end
